theory Spec2Isabelle
  imports Main
begin

section \<open>The JavaScript runtime the detectors run on\<close>

text \<open>
  The four detectors of the repository (\<^verbatim>\<open>timeout.js\<close>, \<^verbatim>\<open>double-fulfill.js\<close>,
  \<^verbatim>\<open>domain.js\<close>, \<^verbatim>\<open>uncaught.js\<close>) are closures over the native \<^verbatim>\<open>Promise\<close>,
  \<^verbatim>\<open>setTimeout\<close> and Node's \<^verbatim>\<open>domain\<close>. The runtime is modelled as an explicit
  store that every function takes and returns: promises, the mutable variables captured
  by closures (\<^verbatim>\<open>chained\<close>, \<^verbatim>\<open>fulfilled\<close>) live at addresses, closures are data
  (one constructor per function expression of the source, holding the variables it
  captures), the microtask queue and the timer queue are lists.
\<close>

subsection \<open>Values\<close>

text \<open>Plain (non-thenable) JavaScript values; \<^verbatim>\<open>new Error(msg)\<close> is \<open>Error msg\<close>.\<close>

datatype val = Undefined | Num int | Str string | Error string

text \<open>The two errors the detectors create.\<close>

definition timeout_error :: val where
  "timeout_error = Error ''timeout error''"  \<comment> \<open>\<^verbatim>\<open>timeout.js\<close> line 8\<close>

definition multiple_fulfill_error :: val where
  "multiple_fulfill_error = Error ''promise is fulfilled multiple time''"
    \<comment> \<open>\<^verbatim>\<open>double-fulfill.js\<close> lines 9-10\<close>

text \<open>How a call of a user function ends: it returns a value or throws one.\<close>

datatype completion = Return val | Throw val

text \<open>
  A stack trace (\<^verbatim>\<open>new Error().stack\<close>) is the list of frames, innermost first; a frame
  is a function of \<^verbatim>\<open>uncaught.js\<close> or the label of a call site in user code.
\<close>

datatype frame =
    InDetectUncaughtPromise  \<comment> \<open>\<^verbatim>\<open>detectUncaughtPromise\<close>, line 7\<close>
  | InCreatePromise          \<comment> \<open>\<^verbatim>\<open>createPromise\<close>, line 43\<close>
  | InWrappedThen            \<comment> \<open>\<^verbatim>\<open>wrappedPromise.then\<close>, line 14\<close>
  | InWrappedCatch           \<comment> \<open>\<^verbatim>\<open>wrappedPromise.catch\<close>, line 21\<close>
  | InDeadlineCallback       \<comment> \<open>the callback of \<^verbatim>\<open>setTimeout\<close>, line 31\<close>
  | Site string              \<comment> \<open>a call site in user code\<close>

type_synonym stack = "frame list"

type_synonym pid = nat  \<comment> \<open>address of a native promise\<close>
type_synonym lid = nat  \<comment> \<open>address of the \<^verbatim>\<open>chained\<close> variable of one chain link\<close>
type_synonym fid = nat  \<comment> \<open>address of the \<^verbatim>\<open>fulfilled\<close> variable of one construction\<close>

datatype settlement = Pending | Fulfilled val | Rejected val

text \<open>What is written to the console, or handed to the reporting callback.\<close>

datatype report =
    UncaughtTerminal stack  \<comment> \<open>\<^verbatim>\<open>console.log('uncaught terminal promise detected.', 'last then() was on:', stack)\<close>\<close>
  | HandlerFault val        \<comment> \<open>\<^verbatim>\<open>console.log('exception occured inside error handler', 'of last promise chain:', err)\<close>\<close>
  | Trace val               \<comment> \<open>\<^verbatim>\<open>console.trace(err)\<close>, the reporting callback of \<^verbatim>\<open>createPromise\<close>\<close>

text \<open>The reporting callback a detector is given; the source passes \<^verbatim>\<open>console.trace\<close>.\<close>

datatype reporter = ConsoleTrace

subsection \<open>Closures as data\<close>

text \<open>
  A handler passed to \<^verbatim>\<open>then\<close>/\<^verbatim>\<open>catch\<close>: a function of user code (pure: it returns
  or throws), or the observer of \<^verbatim>\<open>uncaught.js\<close> lines 31-34.
\<close>

datatype handler = UserFn "val \<Rightarrow> completion" | LastHandlerObserver

text \<open>
  A settlement function: the native \<^verbatim>\<open>resolve\<close> or \<^verbatim>\<open>reject\<close> of a promise, or the
  function \<^verbatim>\<open>wrap(fulfill)\<close> returns in \<^verbatim>\<open>double-fulfill.js\<close> (lines 8-14), which
  captures \<^verbatim>\<open>fulfilled\<close>, \<^verbatim>\<open>fulfill\<close> and \<^verbatim>\<open>errHandler\<close>.
\<close>

datatype settle_fn = Resolve pid | Reject pid | Wrapped fid settle_fn reporter

text \<open>
  A promise as user code holds it: a native promise, or the object
  \<^verbatim>\<open>Object.create(promise)\<close> of \<^verbatim>\<open>detectUncaughtPromise\<close>, whose \<^verbatim>\<open>then\<close> and
  \<^verbatim>\<open>catch\<close> capture \<^verbatim>\<open>chained\<close> (by address), \<^verbatim>\<open>timeout\<close> and \<^verbatim>\<open>promise\<close>.
\<close>

datatype pref = Native pid | Wrapper lid nat pref

text \<open>The handler \<^verbatim>\<open>domain.on('error', ...)\<close> registers in \<^verbatim>\<open>domain.js\<close> (lines 9-12).\<close>

datatype domain = DomainOnError settle_fn reporter

text \<open>
  What a construction function of user code does with the two settlement functions it
  receives: call them, throw, or put off a callback (\<^verbatim>\<open>setTimeout\<close>,
  \<^verbatim>\<open>process.nextTick\<close>) that does the same later.
\<close>

datatype cmd = CallResolve val | CallReject val | ThrowErr val | Defer nat "cmd list"

text \<open>The callbacks handed to \<^verbatim>\<open>setTimeout\<close>.\<close>

datatype callback =
    DeadlineCheck lid "bool option" stack pref  \<comment> \<open>\<^verbatim>\<open>uncaught.js\<close> lines 24-36\<close>
  | TimeoutReject settle_fn                     \<comment> \<open>\<^verbatim>\<open>timeout.js\<close> lines 7-9\<close>
  | UserCallback "cmd list" settle_fn settle_fn "domain option"
      \<comment> \<open>a callback of the construction function, bound to the domain active when it was put off\<close>

text \<open>A reaction registered by \<^verbatim>\<open>then\<close>: the two handlers and the derived promise.\<close>

type_synonym reaction = "handler option \<times> handler option \<times> pid"

subsection \<open>The store\<close>

record state =
  clock :: nat
  heap :: "pid \<Rightarrow> settlement"
  next_pid :: nat
  reactions :: "(pid \<times> reaction) list"    \<comment> \<open>reactions waiting on pending promises\<close>
  jobs :: "(reaction \<times> settlement) list"   \<comment> \<open>the microtask queue\<close>
  timers :: "(nat \<times> callback) list"        \<comment> \<open>the timer queue, by due time, then first come\<close>
  chained :: "lid \<Rightarrow> bool"
  next_link :: nat
  fulfilled :: "fid \<Rightarrow> bool"
  next_flag :: nat
  console :: "report list"
  native_calls :: "(settle_fn \<times> val) list"
    \<comment> \<open>every invocation of a native settlement function, in order (read by no code)\<close>
  uncaught_exceptions :: "val list"
    \<comment> \<open>errors thrown by a callback outside every domain\<close>

definition init :: state where
  "init = \<lparr> clock = 0, heap = (\<lambda>_. Pending), next_pid = 0, reactions = [], jobs = [],
            timers = [], chained = (\<lambda>_. False), next_link = 0,
            fulfilled = (\<lambda>_. False), next_flag = 0, console = [], native_calls = [],
            uncaught_exceptions = [] \<rparr>"

definition log :: "report \<Rightarrow> state \<Rightarrow> state" where
  "log r s = s\<lparr>console := console s @ [r]\<rparr>"

fun invoke_reporter :: "reporter \<Rightarrow> val \<Rightarrow> state \<Rightarrow> state" where
  "invoke_reporter ConsoleTrace err s = log (Trace err) s"

subsection \<open>Native promises\<close>

text \<open>
  The contract of the native promise: the first settlement wins and later ones do
  nothing; settling hands the waiting reactions to the microtask queue, in the order
  they were registered.
\<close>

definition settle :: "pid \<Rightarrow> settlement \<Rightarrow> state \<Rightarrow> state" where
  "settle p out s =
     (case heap s p of
        Pending \<Rightarrow>
          s\<lparr>heap := (heap s)(p := out),
            reactions := filter (\<lambda>(q, r). q \<noteq> p) (reactions s),
            jobs := jobs s @ map (\<lambda>(q, r). (r, out)) (filter (\<lambda>(q, r). q = p) (reactions s))\<rparr>
      | _ \<Rightarrow> s)"

definition new_pending :: "state \<Rightarrow> pid \<times> state" where
  "new_pending s =
     (next_pid s, s\<lparr>next_pid := Suc (next_pid s), heap := (heap s)(next_pid s := Pending)\<rparr>)"

text \<open>\<^verbatim>\<open>p.then(onFulfilled, onRejected)\<close> on a native promise.\<close>

definition native_then :: "pid \<Rightarrow> handler option \<Rightarrow> handler option \<Rightarrow> state \<Rightarrow> pid \<times> state" where
  "native_then p onFulfilled onRejected s =
     (let (q, s1) = new_pending s;
          r = (onFulfilled, onRejected, q)
      in (q, case heap s p of
               Pending \<Rightarrow> s1\<lparr>reactions := reactions s1 @ [(p, r)]\<rparr>
             | out \<Rightarrow> s1\<lparr>jobs := jobs s1 @ [(r, out)]\<rparr>))"

fun apply_handler :: "handler \<Rightarrow> val \<Rightarrow> state \<Rightarrow> completion \<times> state" where
  "apply_handler (UserFn f) v s = (f v, s)"
| "apply_handler LastHandlerObserver err s = (Return Undefined, log (HandlerFault err) s)"

definition finish :: "pid \<Rightarrow> completion \<times> state \<Rightarrow> state" where
  "finish q cs =
     (case cs of
        (Return r, s) \<Rightarrow> settle q (Fulfilled r) s
      | (Throw e, s) \<Rightarrow> settle q (Rejected e) s)"

text \<open>One microtask: run the handler that matches the settlement and settle the
  derived promise with its outcome; without a handler the settlement passes through.\<close>

fun run_job :: "reaction \<times> settlement \<Rightarrow> state \<Rightarrow> state" where
  "run_job ((onFulfilled, onRejected, q), Fulfilled v) s =
     (case onFulfilled of
        None \<Rightarrow> settle q (Fulfilled v) s
      | Some h \<Rightarrow> finish q (apply_handler h v s))"
| "run_job ((onFulfilled, onRejected, q), Rejected e) s =
     (case onRejected of
        None \<Rightarrow> settle q (Rejected e) s
      | Some h \<Rightarrow> finish q (apply_handler h e s))"
| "run_job (r, Pending) s = s"

subsection \<open>Timers\<close>

text \<open>The timer queue is kept in firing order: by due time, and first come first
  served among timers due at the same time.\<close>

fun schedule :: "nat \<times> callback \<Rightarrow> (nat \<times> callback) list \<Rightarrow> (nat \<times> callback) list" where
  "schedule t [] = [t]"
| "schedule t (u # us) = (if fst t < fst u then t # u # us else u # schedule t us)"

definition setTimeout :: "callback \<Rightarrow> nat \<Rightarrow> state \<Rightarrow> state" where
  "setTimeout cb delay s = s\<lparr>timers := schedule (clock s + delay, cb) (timers s)\<rparr>"

subsection \<open>Settlement functions and construction functions\<close>

text \<open>
  Calling a settlement function. The third equation is \<^verbatim>\<open>double-fulfill.js\<close> lines 8-14:
  \<^verbatim>\<open>
  return function(val) {
    if(fulfilled) errHandler(new Error('promise is fulfilled multiple time'))
    fulfilled = true
    fulfill(val)
  }
  \<close>
\<close>

fun call :: "settle_fn \<Rightarrow> val \<Rightarrow> state \<Rightarrow> state" where
  "call (Resolve p) v s =
     settle p (Fulfilled v) (s\<lparr>native_calls := native_calls s @ [(Resolve p, v)]\<rparr>)"
| "call (Reject p) v s =
     settle p (Rejected v) (s\<lparr>native_calls := native_calls s @ [(Reject p, v)]\<rparr>)"
| "call (Wrapped f fulfill errHandler) v s =
     (let s1 = (if fulfilled s f
                then invoke_reporter errHandler multiple_fulfill_error s
                else s);
          s2 = s1\<lparr>fulfilled := (fulfilled s1)(f := True)\<rparr>
      in call fulfill v s2)"

text \<open>Running the body of a construction function (or of a callback it put off) with
  the settlement functions it was given; the result says whether it threw.\<close>

fun exec :: "cmd list \<Rightarrow> settle_fn \<Rightarrow> settle_fn \<Rightarrow> domain option \<Rightarrow> state \<Rightarrow> val option \<times> state" where
  "exec [] resolve reject dmn s = (None, s)"
| "exec (CallResolve v # cs) resolve reject dmn s = exec cs resolve reject dmn (call resolve v s)"
| "exec (CallReject v # cs) resolve reject dmn s = exec cs resolve reject dmn (call reject v s)"
| "exec (ThrowErr e # cs) resolve reject dmn s = (Some e, s)"
| "exec (Defer d body # cs) resolve reject dmn s =
     exec cs resolve reject dmn (setTimeout (UserCallback body resolve reject dmn) d s)"

text \<open>\<^verbatim>\<open>new Promise(executor)\<close>: the executor runs at once with the promise's own
  settlement functions; an error it throws rejects the promise.\<close>

definition new_Promise ::
  "(settle_fn \<Rightarrow> settle_fn \<Rightarrow> state \<Rightarrow> val option \<times> state) \<Rightarrow> state \<Rightarrow> pid \<times> state" where
  "new_Promise executor s =
     (let (p, s1) = new_pending s
      in case executor (Resolve p) (Reject p) s1 of
           (None, s2) \<Rightarrow> (p, s2)
         | (Some e, s2) \<Rightarrow> (p, settle p (Rejected e) s2))"

section \<open>The detectors\<close>

subsection \<open>\<^verbatim>\<open>timeout.js\<close>\<close>


subsection \<open>\<^verbatim>\<open>double-fulfill.js\<close>\<close>

text \<open>
  \<^verbatim>\<open>
  var detectDoubleFulfilledPromise = function(construct, errHandler) {
    return new Promise(function(resolve, reject) {
      var fulfilled = false
      var wrap = function(fulfill) { ... }
      construct(wrap(resolve), wrap(reject))
    })
  }
  \<close>
\<close>

definition detectDoubleFulfilledPromise :: "cmd list \<Rightarrow> reporter \<Rightarrow> state \<Rightarrow> pid \<times> state" where
  "detectDoubleFulfilledPromise construct errHandler s =
     new_Promise (\<lambda>resolve reject s0.
       let f = next_flag s0;
           s1 = s0\<lparr>next_flag := Suc f, fulfilled := (fulfilled s0)(f := False)\<rparr>
       in exec construct (Wrapped f resolve errHandler) (Wrapped f reject errHandler) None s1) s"

subsection \<open>\<^verbatim>\<open>domain.js\<close>\<close>

text \<open>
  \<^verbatim>\<open>
  domain.on('error', function(err) {
    reject(err)
    errorHandler(err)
  })
  \<close>
\<close>

fun domain_error :: "domain \<Rightarrow> val \<Rightarrow> state \<Rightarrow> state" where
  "domain_error (DomainOnError reject errorHandler) err s =
     invoke_reporter errorHandler err (call reject err s)"


subsection \<open>\<^verbatim>\<open>uncaught.js\<close>\<close>

text \<open>
  \<^verbatim>\<open>detectUncaughtPromise(promise, timeout, prevCaught)\<close>: a fresh \<^verbatim>\<open>chained\<close>
  variable, the stack of this call, the deadline timer, and the wrapping object.
  \<open>caller\<close> is the stack of the code that makes the call. \<open>prevCaught\<close> is
  \<open>None\<close> when the argument is left out (\<^verbatim>\<open>undefined\<close>).
\<close>

definition detectUncaughtPromise ::
  "pref \<Rightarrow> nat \<Rightarrow> bool option \<Rightarrow> stack \<Rightarrow> state \<Rightarrow> pref \<times> state" where
  "detectUncaughtPromise promise timeout prevCaught caller s =
     (let l = next_link s;
          s1 = s\<lparr>next_link := Suc l, chained := (chained s)(l := False)\<rparr>;
          stack = InDetectUncaughtPromise # caller
      in (Wrapper l timeout promise,
          setTimeout (DeadlineCheck l prevCaught stack promise) timeout s1))"

text \<open>
  \<^verbatim>\<open>promise.then(onResolved, onRejected)\<close>. On a wrapping object (lines 9-15):
  \<^verbatim>\<open>
  chained = true
  var nextCaught = onRejected ? true : false
  var newPromise = promise.then(onResolved, onRejected)
  return detectUncaughtPromise(newPromise, timeout, nextCaught)
  \<close>
\<close>

fun then_method ::
  "pref \<Rightarrow> handler option \<Rightarrow> handler option \<Rightarrow> stack \<Rightarrow> state \<Rightarrow> pref \<times> state" where
  "then_method (Native p) onResolved onRejected caller s =
     (let (q, s1) = native_then p onResolved onRejected s in (Native q, s1))"
| "then_method (Wrapper l timeout promise) onResolved onRejected caller s =
     (let s1 = s\<lparr>chained := (chained s)(l := True)\<rparr>;
          nextCaught = (case onRejected of Some h \<Rightarrow> True | None \<Rightarrow> False);
          (newPromise, s2) =
             then_method promise onResolved onRejected (InWrappedThen # caller) s1
      in detectUncaughtPromise newPromise timeout (Some nextCaught)
           (InWrappedThen # caller) s2)"

text \<open>
  \<^verbatim>\<open>promise.catch(errHandler)\<close>. On a wrapping object (lines 17-22):
  \<^verbatim>\<open>
  chained = true
  var newPromise = promise.catch(errHandler)
  return detectUncaughtPromise(newPromise, timeout, true)
  \<close>
\<close>

fun catch_method :: "pref \<Rightarrow> handler option \<Rightarrow> stack \<Rightarrow> state \<Rightarrow> pref \<times> state" where
  "catch_method (Native p) errHandler caller s =
     (let (q, s1) = native_then p None errHandler s in (Native q, s1))"
| "catch_method (Wrapper l timeout promise) errHandler caller s =
     (let s1 = s\<lparr>chained := (chained s)(l := True)\<rparr>;
          (newPromise, s2) =
             catch_method promise errHandler (InWrappedCatch # caller) s1
      in detectUncaughtPromise newPromise timeout (Some True)
           (InWrappedCatch # caller) s2)"

text \<open>
  The deadline callback (lines 24-36):
  \<^verbatim>\<open>
  if(chained) return
  if(!prevCaught) {
    console.log('uncaught terminal promise detected.', 'last then() was on:', stack)
  } else {
    promise.catch(function(err) { console.log('exception occured ...', err) })
  }
  \<close>
\<close>

definition deadline_check :: "lid \<Rightarrow> bool option \<Rightarrow> stack \<Rightarrow> pref \<Rightarrow> state \<Rightarrow> state" where
  "deadline_check l prevCaught stack promise s =
     (if chained s l then s
      else if (case prevCaught of Some b \<Rightarrow> \<not> b | None \<Rightarrow> True)
      then log (UncaughtTerminal stack) s
      else snd (catch_method promise (Some LastHandlerObserver) [InDeadlineCallback] s))"

text \<open>
  \<^verbatim>\<open>
  var createPromise = function(construct) {
    var promise = new Promise(construct)
    return detectUncaughtPromise(promise, 1000)
  }
  \<close>
\<close>

definition createPromise :: "cmd list \<Rightarrow> stack \<Rightarrow> state \<Rightarrow> pref \<times> state" where
  "createPromise construct caller s =
     (let (promise, s1) = new_Promise (\<lambda>resolve reject. exec construct resolve reject None) s
      in detectUncaughtPromise (Native promise) 1000 None (InCreatePromise # caller) s1)"

section \<open>The event loop\<close>

text \<open>Running a timer's callback. An error a user callback throws goes to the handler
  of the domain the callback is bound to, or is an uncaught exception.\<close>

fun run_callback :: "callback \<Rightarrow> state \<Rightarrow> state" where
  "run_callback (DeadlineCheck l prevCaught stack promise) s =
     deadline_check l prevCaught stack promise s"
| "run_callback (TimeoutReject reject) s = call reject timeout_error s"
| "run_callback (UserCallback body resolve reject dmn) s =
     (case exec body resolve reject dmn s of
        (None, s1) \<Rightarrow> s1
      | (Some e, s1) \<Rightarrow>
          (case dmn of
             Some d \<Rightarrow> domain_error d e s1
           | None \<Rightarrow> s1\<lparr>uncaught_exceptions := uncaught_exceptions s1 @ [e]\<rparr>))"

text \<open>One turn: a microtask if there is one, else the timer that is due first (the
  clock moves to its due time).\<close>

definition step :: "state \<Rightarrow> state" where
  "step s =
     (case jobs s of
        j # js \<Rightarrow> run_job j (s\<lparr>jobs := js\<rparr>)
      | [] \<Rightarrow>
          (case timers s of
             [] \<Rightarrow> s
           | (due, cb) # ts \<Rightarrow> run_callback cb (s\<lparr>timers := ts, clock := max (clock s) due\<rparr>)))"

definition quiescent :: "state \<Rightarrow> bool" where
  "quiescent s = (jobs s = [] \<and> timers s = [])"

text \<open>The loop runs until nothing is left to do; \<open>None\<close> when the fuel runs out first.\<close>

fun event_loop :: "nat \<Rightarrow> state \<Rightarrow> state option" where
  "event_loop 0 s = (if quiescent s then Some s else None)"
| "event_loop (Suc n) s = (if quiescent s then Some s else event_loop n (step s))"

section \<open>Chains built on \<^verbatim>\<open>createPromise\<close>\<close>

text \<open>
  The programs at the end of \<^verbatim>\<open>uncaught.js\<close> and in the README, started in the initial
  store: a construction function that rejects with \<open>e\<close>, then the registrations, each
  from its own call site. The result is the store when the script has run and the event
  loop takes over.
\<close>




text \<open>The handler of \<^verbatim>\<open>uncaught.js\<close> lines 54-58, which throws, and one that recovers.\<close>

definition failing_handler :: "val \<Rightarrow> completion" where
  "failing_handler err = Throw (Error ''error inside error handler'')"

definition recovering_handler :: "val \<Rightarrow> completion" where
  "recovering_handler err = Return Undefined"

text \<open>The root of the first example of \<^verbatim>\<open>uncaught.js\<close> (line 46), before any chaining.\<close>

definition rejected_root :: state where
  "rejected_root = snd (createPromise [CallReject (Num 1)] [Site ''uncaught.js:46''] init)"




section \<open>Kinds of construction functions\<close>


text \<open>
  One call of a settlement function by the construction function: which of the two it
  calls, and the value it passes. \<open>as_cmd\<close> is the statement that makes the call,
  \<open>requested\<close> the settlement the call asks for, \<open>forwarded p\<close> the call of the native
  settlement function of promise \<open>p\<close> that corresponds to it, and \<open>wrapped_for\<close> the
  wrapped function the call goes to under \<^verbatim>\<open>detectDoubleFulfilledPromise\<close>.
\<close>

datatype settle_call = ViaResolve val | ViaReject val

fun as_cmd :: "settle_call \<Rightarrow> cmd" where
  "as_cmd (ViaResolve v) = CallResolve v"
| "as_cmd (ViaReject v) = CallReject v"

fun requested :: "settle_call \<Rightarrow> settlement" where
  "requested (ViaResolve v) = Fulfilled v"
| "requested (ViaReject v) = Rejected v"

fun forwarded :: "pid \<Rightarrow> settle_call \<Rightarrow> settle_fn \<times> val" where
  "forwarded p (ViaResolve v) = (Resolve p, v)"
| "forwarded p (ViaReject v) = (Reject p, v)"

fun arg :: "settle_call \<Rightarrow> val" where
  "arg (ViaResolve v) = v"
| "arg (ViaReject v) = v"

fun wrapped_for :: "fid \<Rightarrow> pid \<Rightarrow> reporter \<Rightarrow> settle_call \<Rightarrow> settle_fn" where
  "wrapped_for f p h (ViaResolve v) = Wrapped f (Resolve p) h"
| "wrapped_for f p h (ViaReject v) = Wrapped f (Reject p) h"

section \<open>Invariants of the store\<close>


text \<open>The link \<open>l\<close> exists and a continuation has been registered on it.\<close>

definition link_done :: "lid \<Rightarrow> state \<Rightarrow> bool" where
  "link_done l s = (l < next_link s \<and> chained s l)"

text \<open>
  A promise that exists stays, and once it is settled its settlement stays: what the
  second store keeps of promise \<open>p\<close> of the first.
\<close>

definition keeps :: "pid \<Rightarrow> state \<Rightarrow> state \<Rightarrow> bool" where
  "keeps p s s' =
     (p < next_pid s \<longrightarrow> p < next_pid s' \<and> (heap s p = Pending \<or> heap s' p = heap s p))"

text \<open>
  The timer queue is in firing order, no timer is due before the present, and the only
  timer of \<^verbatim>\<open>timeoutPromise\<close> in it is the one for promise \<open>p\<close>, due at \<open>D\<close>.
\<close>

fun timeout_entry_ok :: "nat \<Rightarrow> pid \<Rightarrow> nat \<times> callback \<Rightarrow> bool" where
  "timeout_entry_ok D p (due, TimeoutReject r) = (due = D \<and> r = Reject p)"
| "timeout_entry_ok D p (due, cb) = True"

definition timers_ok :: "nat \<Rightarrow> pid \<Rightarrow> state \<Rightarrow> bool" where
  "timers_ok D p s =
     (sorted (map fst (timers s)) \<and>
      (\<forall>t \<in> set (timers s). clock s \<le> fst t \<and> timeout_entry_ok D p t))"

section \<open>Running a program\<close>

lemma event_loop_numeral:
  "event_loop (numeral k) s =
     (if quiescent s then Some s else event_loop (pred_numeral k) (step s))"
  by (simp add: numeral_eq_Suc)

lemma event_loop_1:
  "event_loop 1 s = (if quiescent s then Some s else event_loop 0 (step s))"
  unfolding One_nat_def by simp

lemmas runtime_defs =
  event_loop_numeral event_loop_1 createPromise_def new_Promise_def new_pending_def
  detectUncaughtPromise_def setTimeout_def init_def settle_def native_then_def Let_def
  step_def quiescent_def deadline_check_def log_def finish_def

section \<open>Immediate construction functions touch the promise only\<close>








section \<open>The uncaught-rejection detector on the example chains\<close>








section \<open>A link that was chained is never reported\<close>

lemma links_log: "chained (log r s) = chained s \<and> next_link (log r s) = next_link s"
  by (simp add: log_def)

lemma links_invoke_reporter:
  "chained (invoke_reporter h e s) = chained s \<and> next_link (invoke_reporter h e s) = next_link s"
  by (cases h) (simp add: links_log)

lemma links_settle: "chained (settle p out s) = chained s \<and> next_link (settle p out s) = next_link s"
  by (simp add: settle_def split: settlement.split)

lemma links_native_then:
  "chained (snd (native_then p f r s)) = chained s \<and> next_link (snd (native_then p f r s)) = next_link s"
  by (simp add: native_then_def new_pending_def Let_def split: settlement.split)

lemma links_run_job: "chained (run_job j s) = chained s \<and> next_link (run_job j s) = next_link s"
proof (cases "(j, s)" rule: run_job.cases)
  case (1 onFulfilled onRejected q v s')
  then show ?thesis
    by (cases onFulfilled; cases "the onFulfilled"; cases "apply_handler (the onFulfilled) v s"; cases "fst (apply_handler (the onFulfilled) v s)")
       (auto simp: finish_def links_settle links_log)
next
  case (2 onFulfilled onRejected q e s')
  then show ?thesis
    by (cases onRejected; cases "the onRejected"; cases "apply_handler (the onRejected) e s"; cases "fst (apply_handler (the onRejected) e s)")
       (auto simp: finish_def links_settle links_log)
next
  case (3 r s')
  then show ?thesis by simp
qed

lemma links_setTimeout:
  "chained (setTimeout cb d s) = chained s \<and> next_link (setTimeout cb d s) = next_link s"
  by (simp add: setTimeout_def)

lemma links_call: "chained (call fn v s) = chained s \<and> next_link (call fn v s) = next_link s"
  by (induction fn v s rule: call.induct) (simp_all add: links_settle links_invoke_reporter Let_def)

lemma links_exec:
  "chained (snd (exec cs res rej dmn s)) = chained s \<and>
   next_link (snd (exec cs res rej dmn s)) = next_link s"
  by (induction cs res rej dmn s rule: exec.induct) (simp_all add: links_call links_setTimeout)

lemma links_domain_error:
  "chained (domain_error d e s) = chained s \<and> next_link (domain_error d e s) = next_link s"
  by (cases d) (simp add: links_call links_invoke_reporter)

lemma link_done_detect:
  "link_done l s \<Longrightarrow> link_done l (snd (detectUncaughtPromise promise timeout prevCaught caller s))"
  by (auto simp: link_done_def detectUncaughtPromise_def setTimeout_def Let_def)

lemma link_done_then:
  "link_done l s \<Longrightarrow> link_done l (snd (then_method promise f r caller s))"
proof (induction promise f r caller s rule: then_method.induct)
  case (1 p onResolved onRejected caller s)
  then show ?case
    using links_native_then [of p onResolved onRejected s]
    by (simp add: link_done_def case_prod_unfold Let_def)
next
  case (2 l' timeout promise onResolved onRejected caller s)
  let ?s1 = "s\<lparr>chained := (chained s)(l' := True)\<rparr>"
  have "link_done l ?s1" using "2.prems" by (simp add: link_done_def)
  from "2.IH" [OF refl refl this]
  have "link_done l (snd (then_method promise onResolved onRejected (InWrappedThen # caller) ?s1))" .
  then show ?case
    by (simp add: Let_def case_prod_unfold link_done_detect)
qed

lemma link_done_catch:
  "link_done l s \<Longrightarrow> link_done l (snd (catch_method promise h caller s))"
proof (induction promise h caller s rule: catch_method.induct)
  case (1 p errHandler caller s)
  then show ?case
    using links_native_then [of p None errHandler s]
    by (simp add: link_done_def case_prod_unfold Let_def)
next
  case (2 l' timeout promise errHandler caller s)
  let ?s1 = "s\<lparr>chained := (chained s)(l' := True)\<rparr>"
  have "link_done l ?s1" using "2.prems" by (simp add: link_done_def)
  from "2.IH" [OF refl this]
  have "link_done l (snd (catch_method promise errHandler (InWrappedCatch # caller) ?s1))" .
  then show ?case
    by (simp add: Let_def case_prod_unfold link_done_detect)
qed

lemma deadline_check_done:
  "chained s l \<Longrightarrow> deadline_check l prevCaught stack promise s = s"
  by (simp add: deadline_check_def)

lemma link_done_deadline_check:
  "link_done l s \<Longrightarrow> link_done l (deadline_check l' prevCaught stack promise s)"
  by (simp add: deadline_check_def link_done_catch)
     (simp add: link_done_def links_log)

lemma link_done_run_callback:
  assumes a: "link_done l s"
  shows "link_done l (run_callback cb s)"
proof (cases cb)
  case (DeadlineCheck l' prevCaught stack promise)
  then show ?thesis using link_done_deadline_check [OF a] by simp
next
  case (TimeoutReject reject)
  then show ?thesis using a by (simp add: link_done_def links_call)
next
  case (UserCallback body resolve reject dmn)
  have "link_done l (snd (exec body resolve reject dmn s))"
    using a by (simp add: link_done_def links_exec)
  then show ?thesis using UserCallback
    by (cases "exec body resolve reject dmn s"; cases "fst (exec body resolve reject dmn s)"; cases dmn)
       (auto simp: link_done_def links_domain_error)
qed

lemma link_done_step:
  assumes a: "link_done l s"
  shows "link_done l (step s)"
proof -
  show ?thesis
  proof (cases "jobs s")
    case (Cons j js)
    then show ?thesis using a by (simp add: step_def link_done_def links_run_job)
  next
    case Nil
    show ?thesis
    proof (cases "timers s")
      case Nil
      with \<open>jobs s = []\<close> a show ?thesis by (simp add: step_def)
    next
      case (Cons t ts)
      have "link_done l (s\<lparr>timers := ts, clock := max (clock s) (fst t)\<rparr>)"
        using a by (simp add: link_done_def)
      from link_done_run_callback [OF this] show ?thesis
        using Cons \<open>jobs s = []\<close> by (simp add: step_def case_prod_unfold)
    qed
  qed
qed

lemma link_done_steps: "link_done l s \<Longrightarrow> link_done l ((step ^^ n) s)"
  by (induction n) (simp_all add: link_done_step)


text \<open>
  C9. Let \<open>l\<close> be a link of the store. After \<^verbatim>\<open>then\<close> or \<^verbatim>\<open>catch\<close> has been called
  on its wrapping object, and after any number of turns of the event loop, the deadline
  callback of \<open>l\<close> returns the store as it finds it: it writes no report and registers
  no observer, whatever \<open>prevCaught\<close> is.
\<close>

theorem chained_link_deadline_is_noop:
  assumes "l < next_link s"
  shows "deadline_check l prevCaught stack promise'
           ((step ^^ n) (snd (then_method (Wrapper l timeout promise) onResolved onRejected caller s))) =
         (step ^^ n) (snd (then_method (Wrapper l timeout promise) onResolved onRejected caller s)) \<and>
         deadline_check l prevCaught stack promise'
           ((step ^^ n) (snd (catch_method (Wrapper l timeout promise) errHandler caller' s))) =
         (step ^^ n) (snd (catch_method (Wrapper l timeout promise) errHandler caller' s))"
proof -
  let ?s1 = "s\<lparr>chained := (chained s)(l := True)\<rparr>"
  have d: "link_done l ?s1" using assms by (simp add: link_done_def)
  have "link_done l (snd (then_method promise onResolved onRejected (InWrappedThen # caller) ?s1))"
    using d by (rule link_done_then)
  then have "link_done l (snd (then_method (Wrapper l timeout promise) onResolved onRejected caller s))"
    by (simp add: Let_def case_prod_unfold link_done_detect)
  then have t: "link_done l ((step ^^ n) (snd (then_method (Wrapper l timeout promise) onResolved onRejected caller s)))"
    by (rule link_done_steps)
  have "link_done l (snd (catch_method promise errHandler (InWrappedCatch # caller') ?s1))"
    using d by (rule link_done_catch)
  then have "link_done l (snd (catch_method (Wrapper l timeout promise) errHandler caller' s))"
    by (simp add: Let_def case_prod_unfold link_done_detect)
  then have c: "link_done l ((step ^^ n) (snd (catch_method (Wrapper l timeout promise) errHandler caller' s)))"
    by (rule link_done_steps)
  from t c show ?thesis by (simp add: link_done_def deadline_check_done)
qed

theorem chained_link_deadline_is_noop_witness:
  "0 < next_link rejected_root \<and>
   deadline_check 0 None [InDetectUncaughtPromise, InCreatePromise, Site ''uncaught.js:46''] (Native 0)
     ((step ^^ 3) (snd (then_method (Wrapper 0 1000 (Native 0)) (Some (UserFn recovering_handler)) None
                          [Site ''uncaught.js:48''] rejected_root))) =
   (step ^^ 3) (snd (then_method (Wrapper 0 1000 (Native 0)) (Some (UserFn recovering_handler)) None
                       [Site ''uncaught.js:48''] rejected_root)) \<and>
   deadline_check 0 None [InDetectUncaughtPromise, InCreatePromise, Site ''uncaught.js:46''] (Native 0)
     ((step ^^ 3) (snd (catch_method (Wrapper 0 1000 (Native 0)) (Some (UserFn failing_handler))
                          [Site ''uncaught.js:54''] rejected_root))) =
   (step ^^ 3) (snd (catch_method (Wrapper 0 1000 (Native 0)) (Some (UserFn failing_handler))
                       [Site ''uncaught.js:54''] rejected_root))"
proof -
  have h: "0 < next_link rejected_root"
    by (simp add: rejected_root_def runtime_defs cong: let_weak_cong prod.case_cong_weak)
  from h chained_link_deadline_is_noop
         [OF h, where n = 3 and caller = "[Site ''uncaught.js:48'']"
            and caller' = "[Site ''uncaught.js:54'']"]
  show ?thesis by (rule conjI)
qed

section \<open>Wrapping twice\<close>




section \<open>The double-settlement detector\<close>

lemma settle_settled: "heap s p \<noteq> Pending \<Longrightarrow> settle p out s = s"
  by (cases "heap s p") (simp_all add: settle_def)

lemma settle_pending:
  "heap s p = Pending \<Longrightarrow>
   settle p out s =
     s\<lparr>heap := (heap s)(p := out),
       reactions := filter (\<lambda>(q, r). q \<noteq> p) (reactions s),
       jobs := jobs s @ map (\<lambda>(q, r). (r, out)) (filter (\<lambda>(q, r). q = p) (reactions s))\<rparr>"
  by (simp add: settle_def)

lemma wrapped_call_later:
  assumes "fulfilled s f" and "heap s p \<noteq> Pending"
  shows "call (wrapped_for f p ConsoleTrace c) (arg c) s =
           s\<lparr>console := console s @ [Trace multiple_fulfill_error],
              native_calls := native_calls s @ [forwarded p c]\<rparr>"
proof -
  have idem: "(fulfilled s)(f := True) = fulfilled s" using assms(1) by (simp add: fun_upd_idem)
  show ?thesis using assms(2)
    by (cases c) (simp_all add: Let_def log_def settle_settled idem assms(1))
qed

lemma exec_as_cmd:
  "exec (as_cmd c # cs) (Wrapped f (Resolve p) h) (Wrapped f (Reject p) h) dmn s =
     exec cs (Wrapped f (Resolve p) h) (Wrapped f (Reject p) h) dmn
       (call (wrapped_for f p h c) (arg c) s)"
  by (cases c) simp_all


lemma wrapped_calls_later:
  assumes "fulfilled s f" and "heap s p \<noteq> Pending"
  shows "exec (map as_cmd cs) (Wrapped f (Resolve p) ConsoleTrace) (Wrapped f (Reject p) ConsoleTrace) dmn s =
         (None, s\<lparr>console := console s @ replicate (length cs) (Trace multiple_fulfill_error),
                  native_calls := native_calls s @ map (forwarded p) cs\<rparr>)"
  using assms
proof (induction cs arbitrary: s)
  case Nil
  show ?case by simp
next
  case (Cons c cs)
  let ?s = "s\<lparr>console := console s @ [Trace multiple_fulfill_error],
              native_calls := native_calls s @ [forwarded p c]\<rparr>"
  have "fulfilled ?s f" "heap ?s p \<noteq> Pending" using Cons.prems by simp_all
  from Cons.IH [OF this] show ?case
    by (simp add: exec_as_cmd wrapped_call_later [OF Cons.prems] replicate_append_same)
qed


lemma wrapped_call_first:
  assumes "\<not> fulfilled s f" and "heap s p = Pending"
  shows "call (wrapped_for f p ConsoleTrace c) (arg c) s =
           s\<lparr>fulfilled := (fulfilled s)(f := True),
              native_calls := native_calls s @ [forwarded p c],
              heap := (heap s)(p := requested c),
              reactions := filter (\<lambda>(q, r). q \<noteq> p) (reactions s),
              jobs := jobs s @ map (\<lambda>(q, r). (r, requested c)) (filter (\<lambda>(q, r). q = p) (reactions s))\<rparr>"
  using assms by (cases c) (simp_all add: Let_def settle_pending)

lemma wrapped_calls_all:
  assumes "\<not> fulfilled s f" and "heap s p = Pending"
  shows "exec (as_cmd c # map as_cmd cs) (Wrapped f (Resolve p) ConsoleTrace)
           (Wrapped f (Reject p) ConsoleTrace) dmn s =
         (None,
          s\<lparr>fulfilled := (fulfilled s)(f := True),
            heap := (heap s)(p := requested c),
            reactions := filter (\<lambda>(q, r). q \<noteq> p) (reactions s),
            jobs := jobs s @ map (\<lambda>(q, r). (r, requested c)) (filter (\<lambda>(q, r). q = p) (reactions s)),
            console := console s @ replicate (length cs) (Trace multiple_fulfill_error),
            native_calls := native_calls s @ forwarded p c # map (forwarded p) cs\<rparr>)"
proof -
  let ?s = "s\<lparr>fulfilled := (fulfilled s)(f := True),
              native_calls := native_calls s @ [forwarded p c],
              heap := (heap s)(p := requested c),
              reactions := filter (\<lambda>(q, r). q \<noteq> p) (reactions s),
              jobs := jobs s @ map (\<lambda>(q, r). (r, requested c)) (filter (\<lambda>(q, r). q = p) (reactions s))\<rparr>"
  have b: "fulfilled ?s f" "heap ?s p \<noteq> Pending" by (cases c; simp)+
  show ?thesis
    by (simp add: exec_as_cmd wrapped_call_first [OF assms] wrapped_calls_later [OF b])
qed



lemma detect_double_result:
  "detectDoubleFulfilledPromise (map as_cmd (c # cs)) ConsoleTrace s0 =
     (next_pid s0,
      s0\<lparr>next_pid := Suc (next_pid s0),
         next_flag := Suc (next_flag s0),
         fulfilled := (fulfilled s0)(next_flag s0 := True),
         heap := (heap s0)(next_pid s0 := requested c),
         reactions := filter (\<lambda>(q, r). q \<noteq> next_pid s0) (reactions s0),
         jobs := jobs s0 @ map (\<lambda>(q, r). (r, requested c)) (filter (\<lambda>(q, r). q = next_pid s0) (reactions s0)),
         console := console s0 @ replicate (length cs) (Trace multiple_fulfill_error),
         native_calls := native_calls s0 @ map (forwarded (next_pid s0)) (c # cs)\<rparr>)"
  by (simp add: detectDoubleFulfilledPromise_def new_Promise_def new_pending_def Let_def
        wrapped_calls_all)


text \<open>
  C4. A construction function that calls the wrapped settlement functions \<open>N > 1\<close>
  times, in any mix and with any values, under \<^verbatim>\<open>detectDoubleFulfilledPromise\<close>: the
  reporting callback is invoked exactly \<open>N - 1\<close> times (each time with the error
  \<open>multiple_fulfill_error\<close>), and the promise is settled as the first call
  asked.
\<close>

theorem double_settlement_reported:
  assumes "1 < length calls"
  shows "console (snd (detectDoubleFulfilledPromise (map as_cmd calls) ConsoleTrace s)) =
           console s @ replicate (length calls - 1) (Trace multiple_fulfill_error) \<and>
         heap (snd (detectDoubleFulfilledPromise (map as_cmd calls) ConsoleTrace s))
              (fst (detectDoubleFulfilledPromise (map as_cmd calls) ConsoleTrace s)) =
           requested (hd calls)"
proof (cases calls)
  case Nil
  with assms show ?thesis by simp
next
  case (Cons c cs)
  show ?thesis unfolding Cons detect_double_result by simp
qed

theorem double_settlement_reported_witness:
  "1 < length [ViaResolve (Num 1), ViaResolve (Num 2)] \<and>
   console (snd (detectDoubleFulfilledPromise
                   (map as_cmd [ViaResolve (Num 1), ViaResolve (Num 2)]) ConsoleTrace init)) =
     console init @ replicate (length [ViaResolve (Num 1), ViaResolve (Num 2)] - 1)
                      (Trace multiple_fulfill_error) \<and>
   heap (snd (detectDoubleFulfilledPromise
                (map as_cmd [ViaResolve (Num 1), ViaResolve (Num 2)]) ConsoleTrace init))
        (fst (detectDoubleFulfilledPromise
                (map as_cmd [ViaResolve (Num 1), ViaResolve (Num 2)]) ConsoleTrace init)) =
     requested (hd [ViaResolve (Num 1), ViaResolve (Num 2)])"
proof -
  have h: "1 < length [ViaResolve (Num 1), ViaResolve (Num 2)]" by simp
  from h double_settlement_reported [OF h, of init]
  show ?thesis by (rule conjI)
qed


section \<open>The fault-isolation bridge\<close>


section \<open>Settled promises stay settled\<close>


lemma keeps_trans: "keeps p s t \<Longrightarrow> keeps p t u \<Longrightarrow> keeps p s u"
  by (auto simp: keeps_def)

lemma keeps_same: "heap t = heap s \<Longrightarrow> next_pid t = next_pid s \<Longrightarrow> keeps p s t"
  by (simp add: keeps_def)




lemma keeps_native_then: "keeps p s (snd (native_then q f r s))"
  by (cases "heap s q") (auto simp: keeps_def native_then_def new_pending_def Let_def)








lemma keeps_detect: "keeps p s (snd (detectUncaughtPromise promise timeout prevCaught caller s))"
  by (simp add: keeps_def detectUncaughtPromise_def setTimeout_def Let_def)

lemma keeps_then: "keeps p s (snd (then_method promise f r caller s))"
proof (induction promise f r caller s rule: then_method.induct)
  case (1 q onResolved onRejected caller s)
  show ?case using keeps_native_then [of p s q onResolved onRejected]
    by (simp add: case_prod_unfold Let_def)
next
  case (2 l timeout promise onResolved onRejected caller s)
  let ?s1 = "s\<lparr>chained := (chained s)(l := True)\<rparr>"
  let ?r = "then_method promise onResolved onRejected (InWrappedThen # caller) ?s1"
  have "keeps p s ?s1" by (simp add: keeps_def)
  moreover have "keeps p ?s1 (snd ?r)" using "2.IH" [OF refl refl] .
  ultimately have "keeps p s (snd ?r)" by (rule keeps_trans)
  then have "keeps p s (snd (detectUncaughtPromise (fst ?r) timeout
                 (Some (case onRejected of Some h \<Rightarrow> True | None \<Rightarrow> False))
                 (InWrappedThen # caller) (snd ?r)))"
    using keeps_detect by (rule keeps_trans)
  then show ?case by (simp add: case_prod_unfold Let_def)
qed






section \<open>The timeout detector\<close>

lemma set_schedule: "set (schedule t ts) = insert t (set ts)"
  by (induction ts) auto

lemma sorted_schedule: "sorted (map fst ts) \<Longrightarrow> sorted (map fst (schedule t ts))"
  by (induction ts) (auto simp: set_schedule)


lemma timers_ok_setTimeout:
  "timers_ok D p s \<Longrightarrow> timeout_entry_ok D p (clock s + d, cb) \<Longrightarrow> timers_ok D p (setTimeout cb d s)"
  by (auto simp: timers_ok_def setTimeout_def set_schedule sorted_schedule)




lemma tq_native_then:
  "timers (snd (native_then q f r s)) = timers s \<and> clock (snd (native_then q f r s)) = clock s"
  by (simp add: native_then_def new_pending_def Let_def split: settlement.split)






lemma timers_ok_detect:
  "timers_ok D p s \<Longrightarrow> timers_ok D p (snd (detectUncaughtPromise promise timeout prevCaught caller s))"
proof -
  assume a: "timers_ok D p s"
  let ?s1 = "s\<lparr>next_link := Suc (next_link s), chained := (chained s)(next_link s := False)\<rparr>"
  have "timers_ok D p ?s1" using a by (simp add: timers_ok_def)
  then have "timers_ok D p (setTimeout (DeadlineCheck (next_link s) prevCaught
                 (InDetectUncaughtPromise # caller) promise) timeout ?s1)"
    by (rule timers_ok_setTimeout) simp
  then show ?thesis by (simp add: detectUncaughtPromise_def Let_def)
qed

lemma timers_ok_then:
  "timers_ok D p s \<Longrightarrow> timers_ok D p (snd (then_method promise f r caller s))"
proof (induction promise f r caller s rule: then_method.induct)
  case (1 q onResolved onRejected caller s)
  then show ?case
    using tq_native_then [of q onResolved onRejected s]
    by (simp add: timers_ok_def case_prod_unfold Let_def)
next
  case (2 l timeout promise onResolved onRejected caller s)
  let ?s1 = "s\<lparr>chained := (chained s)(l := True)\<rparr>"
  have "timers_ok D p ?s1" using "2.prems" by (simp add: timers_ok_def)
  from "2.IH" [OF refl refl this]
  show ?case by (simp add: Let_def case_prod_unfold timers_ok_detect)
qed










end
